theory Spec2Isabelle
  imports Complex_Main "HOL-Library.Char_ord" "HOL-Library.List_Lexorder"
begin

section \<open>Python strings\<close>

text \<open>
  A Python \<open>str\<close> is modelled as a \<open>string\<close> (a list of 8-bit characters). The model
  covers ASCII text: \<open>lower\<close> maps \<open>A..Z\<close> to \<open>a..z\<close> and leaves every other character
  alone, and the whitespace that \<open>str.strip()\<close> removes is the ASCII whitespace
  (codes 9..13, 28..31 and 32). Strings compare as Python compares them, character by
  character, a proper prefix first.
\<close>

definition lower_char :: "char \<Rightarrow> char" where
  "lower_char c =
     (case map_of (zip ''ABCDEFGHIJKLMNOPQRSTUVWXYZ'' ''abcdefghijklmnopqrstuvwxyz'') c of
        Some d \<Rightarrow> d
      | None \<Rightarrow> c)"

definition lower :: "string \<Rightarrow> string" where
  "lower s = map lower_char s"

definition is_space :: "char \<Rightarrow> bool" where
  "is_space c \<longleftrightarrow>
     c \<in> set [CHR 0x09, CHR 0x0A, CHR 0x0B, CHR 0x0C, CHR 0x0D,
              CHR 0x1C, CHR 0x1D, CHR 0x1E, CHR 0x1F, CHR 0x20]"

text \<open>\<open>s.strip(chars)\<close>: drop the leading and the trailing characters that are in \<open>chars\<close>.\<close>

definition strip_chars :: "(char \<Rightarrow> bool) \<Rightarrow> string \<Rightarrow> string" where
  "strip_chars P s = rev (dropWhile P (rev (dropWhile P s)))"

definition strip :: "string \<Rightarrow> string" where
  "strip s = strip_chars is_space s"

definition startswith :: "string \<Rightarrow> string \<Rightarrow> bool" where
  "startswith s p \<longleftrightarrow> take (length p) s = p"

definition endswith :: "string \<Rightarrow> string \<Rightarrow> bool" where
  "endswith s p \<longleftrightarrow> length p \<le> length s \<and> drop (length s - length p) s = p"

text \<open>\<open>sub in s\<close> for strings.\<close>

fun contains :: "string \<Rightarrow> string \<Rightarrow> bool" where
  "contains sub [] = (sub = [])"
| "contains sub (c # cs) = (startswith (c # cs) sub \<or> contains sub cs)"

text \<open>
  \<open>s.split(sep, 1)\<close> for a one-character separator: \<open>[s]\<close> when \<open>sep\<close> does not occur,
  otherwise the text before the first \<open>sep\<close> and the text after it.
\<close>

definition split1 :: "char \<Rightarrow> string \<Rightarrow> string list" where
  "split1 sep s =
     (if sep \<in> set s
      then [takeWhile (\<lambda>c. c \<noteq> sep) s, tl (dropWhile (\<lambda>c. c \<noteq> sep) s)]
      else [s])"

text \<open>\<open>s.split(sep)\<close> for a one-character separator: every segment, empty ones too.\<close>

fun split_on :: "char \<Rightarrow> string \<Rightarrow> string list" where
  "split_on sep [] = [[]]"
| "split_on sep (c # cs) =
     (if c = sep then [] # split_on sep cs
      else (case split_on sep cs of
              [] \<Rightarrow> [[c]]
            | seg # segs \<Rightarrow> (c # seg) # segs))"

text \<open>\<open>d.get(k, default)\<close> on a dictionary kept as an association list.\<close>

definition get_or :: "('k \<times> 'v) list \<Rightarrow> 'k \<Rightarrow> 'v \<Rightarrow> 'v" where
  "get_or d k dflt = (case map_of d k of Some v \<Rightarrow> v | None \<Rightarrow> dflt)"


section \<open>Confidence scoring (scraper/validate.py)\<close>

text \<open>
  A JSON value of a verifier verdict; the scorer only compares the \<open>result\<close> field with
  the string \<open>valid\<close>.
\<close>

datatype jval = JStr string | JNum int | JBool bool | JNull

type_synonym verdict = "(string \<times> jval) list"

definition GENERIC_PREFIXES :: "string set" where
  "GENERIC_PREFIXES =
     {''info'', ''hello'', ''contact'', ''hi'', ''support'', ''team'', ''careers'', ''jobs''}"

text \<open>
  \<open>hv = hunter_verification.get(e) if hunter_verification else None\<close> followed by
  \<open>hv and hv.get("result") == "valid"\<close>: an empty dictionary is falsy.
\<close>

definition hunter_valid :: "(string \<times> verdict) list \<Rightarrow> string \<Rightarrow> bool" where
  "hunter_valid hunter_verification e =
     (case (if hunter_verification = [] then None else map_of hunter_verification e) of
        None \<Rightarrow> False
      | Some hv \<Rightarrow> hv \<noteq> [] \<and> map_of hv ''result'' = Some (JStr ''valid''))"

text \<open>First loop: high if any Hunter verdict says valid.\<close>

fun loop_hunter ::
  "(string \<times> verdict) list \<Rightarrow> (string \<times> string) list \<Rightarrow> string list \<Rightarrow> (string \<times> string) option"
where
  "loop_hunter hv src [] = None"
| "loop_hunter hv src (e # es) =
     (if hunter_valid hv e then Some (''high'', get_or src e ''page'')
      else loop_hunter hv src es)"

text \<open>Second loop: high if Apollo provided an email.\<close>

fun loop_apollo :: "(string \<times> string) list \<Rightarrow> string list \<Rightarrow> (string \<times> string) option" where
  "loop_apollo src [] = None"
| "loop_apollo src (e # es) =
     (if map_of src e = Some ''apollo'' then Some (''high'', ''apollo'')
      else loop_apollo src es)"

text \<open>\<open>local = e.split("@", 1)[0].lower()\<close>\<close>

definition local_part :: "string \<Rightarrow> string" where
  "local_part e = lower (hd (split1 CHR ''@'' e))"

text \<open>\<open>"." in local and all(part for part in local.split("."))\<close>\<close>

definition dotted_name :: "string \<Rightarrow> bool" where
  "dotted_name local \<longleftrightarrow> CHR ''.'' \<in> set local \<and> list_all (\<lambda>part. part \<noteq> []) (split_on CHR ''.'' local)"

text \<open>Third loop: medium if on-page and not generic, or shaped like firstname.lastname.\<close>

fun loop_page :: "(string \<times> string) list \<Rightarrow> string list \<Rightarrow> (string \<times> string) option" where
  "loop_page src [] = None"
| "loop_page src (e # es) =
     (if map_of src e = Some ''page'' then
        (if dotted_name (local_part e) then Some (''medium'', ''page'')
         else if local_part e \<notin> GENERIC_PREFIXES then Some (''medium'', ''page'')
         else loop_page src es)
      else loop_page src es)"

definition assess_confidence ::
  "string list \<Rightarrow> (string \<times> verdict) list \<Rightarrow> (string \<times> string) list \<Rightarrow> string \<times> string"
where
  "assess_confidence emails hunter_verification emails_by_source =
     (case loop_hunter hunter_verification emails_by_source emails of
        Some r \<Rightarrow> r
      | None \<Rightarrow>
         (case loop_apollo emails_by_source emails of
            Some r \<Rightarrow> r
          | None \<Rightarrow>
             (case loop_page emails_by_source emails of
                Some r \<Rightarrow> r
              | None \<Rightarrow>
                 (case emails of
                    e0 # _ \<Rightarrow> (''low'', get_or emails_by_source e0 ''page'')
                  | [] \<Rightarrow> (''low'', ''serp'')))))"

text \<open>
  \<open>filter_emails_basic\<close>: entries without an \<open>@\<close> are skipped; \<open>local, dom = e.split("@", 1)\<close>
  then has exactly two parts, the second being \<open>dom\<close>; the denylist is consulted on
  \<open>dom.lower()\<close>, and what is kept is \<open>e.strip()\<close>. The \<open>domain\<close> argument is unused, as in
  the source.
\<close>

definition DISPOSABLE_DOMAINS :: "string set" where
  "DISPOSABLE_DOMAINS =
     {''mailinator.com'', ''guerrillamail.com'', ''10minutemail.com'', ''tempmail.com'',
      ''yopmail.com''}"

fun filter_emails_basic :: "string list \<Rightarrow> string option \<Rightarrow> string list" where
  "filter_emails_basic [] domain = []"
| "filter_emails_basic (e # es) domain =
     (if CHR ''@'' \<notin> set e then filter_emails_basic es domain
      else (let dom = split1 CHR ''@'' e ! 1 in
            if lower dom \<in> DISPOSABLE_DOMAINS then filter_emails_basic es domain
            else strip e # filter_emails_basic es domain))"

text \<open>\<open>dedupe_keep_order\<close>: the loop over \<open>items\<close> with its \<open>seen\<close> set of lower-cased keys.\<close>

fun dedupe_loop :: "string set \<Rightarrow> string list \<Rightarrow> string list" where
  "dedupe_loop seen [] = []"
| "dedupe_loop seen (x # xs) =
     (let k = lower x in
      if k \<in> seen then dedupe_loop seen xs
      else x # dedupe_loop (insert k seen) xs)"

definition dedupe_keep_order :: "string list \<Rightarrow> string list" where
  "dedupe_keep_order items = dedupe_loop {} items"


section \<open>Checkpoint merge (scraper/io.py)\<close>

text \<open>
  A row of a table read by pandas, as \<open>itertuples\<close> hands it out: a column the table does
  not have is an attribute the tuple does not have (\<open>None\<close> below); a cell is modelled by
  the text \<open>str(cell)\<close> gives. The other columns of a row travel along in \<open>other_columns\<close>.
  A table read from a file is empty (\<open>chk.empty\<close>) when it has no row.
\<close>

record 'a table_row =
  company_name :: "string option"
  row_domain :: "string option"
  other_columns :: 'a

text \<open>
  The set \<open>processed\<close>: pairs \<open>(str(r.company_name).strip(), str(r.domain).strip())\<close> of the
  checkpoint rows that have both attributes.
\<close>

definition processed_keys :: "'a table_row list \<Rightarrow> (string \<times> string) set" where
  "processed_keys chk =
     set (concat (map (\<lambda>r. case (company_name r, row_domain r) of
                              (Some n, Some d) \<Rightarrow> [(strip n, strip d)]
                            | _ \<Rightarrow> []) chk))"

text \<open>
  The key of an input row is \<open>(str(getattr(r, "company_name", "")).strip(), "")\<close>: its second
  component is always the empty string.
\<close>

definition row_key :: "'a table_row \<Rightarrow> string \<times> string" where
  "row_key r = (strip (case company_name r of Some n \<Rightarrow> n | None \<Rightarrow> ''''), '''')"

definition merge_checkpoint :: "'a table_row list \<Rightarrow> 'b table_row list \<Rightarrow> 'a table_row list" where
  "merge_checkpoint df chk =
     (if chk = [] then df
      else filter (\<lambda>r. row_key r \<notin> processed_keys chk) df)"


section \<open>Rate limiter (scraper/utils.py)\<close>

text \<open>
  Clock readings of \<open>time.monotonic()\<close> are seconds, modelled as real numbers (the
  rounding of floating point is left out). \<open>acquire\<close> has one suspension point, the
  \<open>await asyncio.sleep(wait_for)\<close>; the code before it and the code after it each run
  without interruption.
\<close>

datatype py_error = IndexError | ValueError | RaisedError string

record RateLimiter =
  per_minute :: int
  timestamps :: "real list"

definition RateLimiter_init :: "int \<Rightarrow> RateLimiter" where
  "RateLimiter_init n = \<lparr>per_minute = max 1 n, timestamps = []\<rparr>"

text \<open>\<open>while self.timestamps and now - self.timestamps[0] > 60: self.timestamps.popleft()\<close>\<close>

fun purge :: "real \<Rightarrow> real list \<Rightarrow> real list" where
  "purge now [] = []"
| "purge now (t # ts) = (if now - t > 60 then purge now ts else t # ts)"

text \<open>
  The first part of \<open>acquire\<close>, run at clock reading \<open>now\<close>: the purge, then the decision to
  wait. The result is the limiter and the time to sleep (\<open>None\<close>: no sleep).
  \<open>self.timestamps[0]\<close> on an empty deque raises \<open>IndexError\<close>.
\<close>

definition acquire_check :: "real \<Rightarrow> RateLimiter \<Rightarrow> py_error + (RateLimiter \<times> real option)" where
  "acquire_check now rl =
     (let ts = purge now (timestamps rl); rl' = rl\<lparr>timestamps := ts\<rparr> in
      if int (length ts) \<ge> per_minute rl then
        (case ts of
           [] \<Rightarrow> Inl IndexError
         | t0 # _ \<Rightarrow> Inr (rl', Some (60 - (now - t0) + 1 / 100)))
      else Inr (rl', None))"

text \<open>The last statement of \<open>acquire\<close>, run at clock reading \<open>now\<close>.\<close>

definition acquire_record :: "real \<Rightarrow> RateLimiter \<Rightarrow> RateLimiter" where
  "acquire_record now rl = rl\<lparr>timestamps := timestamps rl @ [now]\<rparr>"

text \<open>
  Callers of one limiter under the cooperative scheduler. \<open>Call i t\<close>: task \<open>i\<close> enters
  \<open>acquire\<close> at clock reading \<open>t\<close>; when it need not wait it records its timestamp in the
  same uninterrupted run (both clock readings are taken as \<open>t\<close>) and completes. Otherwise
  it sleeps, and \<open>Wake i t\<close> is the moment it resumes, not before its sleep is over; it
  then records \<open>t\<close> and completes. A schedule that moves the clock backwards, wakes a task
  that does not sleep or wakes it early is not a run (\<open>None\<close>).
\<close>

datatype event = Call nat real | Wake nat real

record sched =
  limiter :: RateLimiter
  clock :: real
  sleeping :: "(nat \<times> real) list"
  completed :: "(nat \<times> real) list"

definition sched_init :: "int \<Rightarrow> sched" where
  "sched_init n = \<lparr>limiter = RateLimiter_init n, clock = 0, sleeping = [], completed = []\<rparr>"

fun step :: "event \<Rightarrow> sched \<Rightarrow> sched option" where
  "step (Call i t) s =
     (if t < clock s \<or> i \<in> fst ` set (sleeping s) then None
      else (case acquire_check t (limiter s) of
              Inl err \<Rightarrow> None
            | Inr (rl, None) \<Rightarrow>
                Some (s\<lparr>limiter := acquire_record t rl, clock := t,
                        completed := completed s @ [(i, t)]\<rparr>)
            | Inr (rl, Some wait_for) \<Rightarrow>
                Some (s\<lparr>limiter := rl, clock := t,
                        sleeping := sleeping s @ [(i, t + wait_for)]\<rparr>)))"
| "step (Wake i t) s =
     (case map_of (sleeping s) i of
        None \<Rightarrow> None
      | Some due \<Rightarrow>
          if t < clock s \<or> t < due then None
          else Some (s\<lparr>limiter := acquire_record t (limiter s), clock := t,
                       sleeping := filter (\<lambda>(j, _). j \<noteq> i) (sleeping s),
                       completed := completed s @ [(i, t)]\<rparr>))"

fun run :: "event list \<Rightarrow> sched \<Rightarrow> sched option" where
  "run [] s = Some s"
| "run (ev # evs) s = (case step ev s of None \<Rightarrow> None | Some s' \<Rightarrow> run evs s')"

text \<open>The completions whose time lies in the window from \<open>a\<close> to \<open>a + 60\<close>.\<close>

definition completions_in_window :: "real \<Rightarrow> sched \<Rightarrow> nat" where
  "completions_in_window a s = length (filter (\<lambda>(i, t). a \<le> t \<and> t \<le> a + 60) (completed s))"


section \<open>Domains (scraper/utils.py)\<close>

text \<open>
  \<open>urllib.parse\<close> and \<open>tldextract\<close> are libraries outside the repository; what they
  return is a parameter of the model. \<open>urlparse u\<close> is \<open>None\<close> when \<open>urlparse(u)\<close> (or
  reading its \<open>hostname\<close>) raises; \<open>hostname\<close> holds \<open>parsed.hostname or ""\<close>.
  \<open>tld_extract h\<close> is the pair \<open>(ext.domain, ext.suffix)\<close> of \<open>tldextract.extract(h)\<close>,
  \<open>None\<close> when it raises. \<open>urljoin b r\<close> is \<open>None\<close> when \<open>urljoin(b, r)\<close> raises.
\<close>

record parsed_url =
  hostname :: string
  path :: string

record url_lib =
  urlparse :: "string \<Rightarrow> parsed_url option"
  tld_extract :: "string \<Rightarrow> (string \<times> string) option"
  urljoin :: "string \<Rightarrow> string \<Rightarrow> string option"

text \<open>\<open>".".join(parts)\<close>\<close>

fun join_dot :: "string list \<Rightarrow> string" where
  "join_dot [] = ''''"
| "join_dot [p] = p"
| "join_dot (p # ps) = p @ ''.'' @ join_dot ps"

text \<open>The body of the \<open>try\<close> block of \<open>normalize_domain\<close>; \<open>Inl\<close> is an exception raised in it.\<close>

definition normalize_try :: "url_lib \<Rightarrow> string \<Rightarrow> py_error + string option" where
  "normalize_try L s =
     (case urlparse L s of
        None \<Rightarrow> Inl ValueError
      | Some parsed \<Rightarrow>
          (let host = hostname parsed in
           if host = [] then Inr None
           else (case tld_extract L host of
                   None \<Rightarrow> Inl (RaisedError ''tldextract'')
                 | Some (ext_domain, ext_suffix) \<Rightarrow>
                     if ext_domain = [] \<or> ext_suffix = [] then Inr None
                     else Inr (Some (join_dot (filter (\<lambda>part. part \<noteq> [])
                                                 [ext_domain, ext_suffix]))))))"

text \<open>
  \<open>normalize_domain\<close>; the argument is \<open>None\<close> or a string. \<open>except Exception: return None\<close>
  turns every exception of the block into the result \<open>None\<close>.
\<close>

definition normalize_domain :: "url_lib \<Rightarrow> string option \<Rightarrow> py_error + string option" where
  "normalize_domain L url_or_domain =
     (case url_or_domain of
        None \<Rightarrow> Inr None
      | Some u \<Rightarrow>
          if u = [] then Inr None
          else (let s = strip u in
                if s = [] then Inr None
                else (let s' = (if \<not> contains ''://'' s then ''http://'' @ s else s) in
                      case normalize_try L s' of
                        Inl err \<Rightarrow> Inr None
                      | Inr r \<Rightarrow> Inr r)))"

text \<open>\<open>same_domain\<close>: any exception gives \<open>False\<close>.\<close>

definition same_domain :: "url_lib \<Rightarrow> string \<Rightarrow> string \<Rightarrow> bool" where
  "same_domain L domain url =
     (case urlparse L url of
        None \<Rightarrow> False
      | Some parsed \<Rightarrow>
          (let host = hostname parsed in
           case tld_extract L host of
             None \<Rightarrow> False
           | Some (ext_domain, ext_suffix) \<Rightarrow>
               (let reg = (if ext_domain \<noteq> [] \<and> ext_suffix \<noteq> []
                           then join_dot [ext_domain, ext_suffix] else host)
                in lower reg = lower domain)))"

section \<open>Email extraction (scraper/extract.py)\<close>

text \<open>
  \<open>EMAIL_RE\<close>, compiled with \<open>re.IGNORECASE | re.VERBOSE\<close>, is
  \<^verbatim>\<open>(?:[a-z0-9!#$%&'*+/=?^_`{|}~-]+(?:\.[a-z0-9!#$%&'*+/=?^_`{|}~-]+)*)@\<close>
  \<^verbatim>\<open>(?:[a-z0-9](?:[a-z0-9-]*[a-z0-9])?(?:\.[a-z0-9](?:[a-z0-9-]*[a-z0-9])?)+)\<close>.
  The matcher below is this pattern on ASCII text, as the backtracking engine of \<open>re\<close>
  runs it. The classes of the local part contain neither \<open>.\<close> nor \<open>@\<close>, and the class of
  a label does not contain \<open>.\<close>, so a greedy repetition that is cut short is followed by a
  character the rest of the pattern rejects: backtracking never finds a match the
  greedy run has missed, except inside a label, where \<open>[a-z0-9-]*[a-z0-9]\<close> gives back
  trailing hyphens.
\<close>

definition is_alnum :: "char \<Rightarrow> bool" where
  "is_alnum c \<longleftrightarrow>
     c \<in> set ''abcdefghijklmnopqrstuvwxyzABCDEFGHIJKLMNOPQRSTUVWXYZ0123456789''"

definition is_atext :: "char \<Rightarrow> bool" where
  "is_atext c \<longleftrightarrow> is_alnum c \<or> c \<in> set (''!#$%&*+/=?^_`{|}~-'' @ [CHR 0x27])"

definition is_label_char :: "char \<Rightarrow> bool" where
  "is_label_char c \<longleftrightarrow> is_alnum c \<or> c = CHR ''-''"

text \<open>\<open>(?:\.[atext]+)*\<close>, greedy: the text matched and the text left.\<close>

function dot_atoms :: "string \<Rightarrow> string \<times> string" where
  "dot_atoms [] = ([], [])"
| "dot_atoms (c # cs) =
     (if c = CHR ''.'' \<and> takeWhile is_atext cs \<noteq> [] then
        (case dot_atoms (dropWhile is_atext cs) of
           (m, rest) \<Rightarrow> (c # takeWhile is_atext cs @ m, rest))
      else ([], c # cs))"
  by pat_completeness auto
termination
  by (relation "measure length") (auto simp: length_dropWhile_le le_imp_less_Suc)

text \<open>
  One label \<open>[a-z0-9](?:[a-z0-9-]*[a-z0-9])?\<close>: a letter or digit, then the longest run of
  letters, digits and hyphens that ends in a letter or digit.
\<close>

definition take_label :: "string \<Rightarrow> (string \<times> string) option" where
  "take_label s =
     (case s of
        [] \<Rightarrow> None
      | c # cs \<Rightarrow>
          if \<not> is_alnum c then None
          else (let w = takeWhile is_label_char cs;
                    w' = rev (dropWhile (\<lambda>x. x = CHR ''-'') (rev w))
                in Some (c # w', drop (length w') cs)))"

lemma take_label_shorter: "take_label s = Some (l, rest) \<Longrightarrow> length rest < length s"
  by (auto simp: take_label_def Let_def split: list.splits if_splits)

text \<open>\<open>(?:\.label)*\<close>, greedy; the pattern asks for at least one, which \<open>match_at\<close> checks.\<close>

function dot_labels :: "string \<Rightarrow> string \<times> string" where
  "dot_labels [] = ([], [])"
| "dot_labels (c # cs) =
     (if c = CHR ''.'' then
        (case take_label cs of
           None \<Rightarrow> ([], c # cs)
         | Some (l, rest) \<Rightarrow>
             (case dot_labels rest of (m, rest') \<Rightarrow> (c # l @ m, rest')))
      else ([], c # cs))"
  by pat_completeness auto
termination
  by (relation "measure length") (auto dest: take_label_shorter)

text \<open>A match of \<open>EMAIL_RE\<close> that starts at the head of \<open>s\<close>: the match and the text after it.\<close>

definition match_at :: "string \<Rightarrow> (string \<times> string) option" where
  "match_at s =
     (let a = takeWhile is_atext s in
      if a = [] then None
      else (case dot_atoms (dropWhile is_atext s) of
              (atoms, r2) \<Rightarrow>
                (case r2 of
                   [] \<Rightarrow> None
                 | c # r3 \<Rightarrow>
                     if c \<noteq> CHR ''@'' then None
                     else (case take_label r3 of
                             None \<Rightarrow> None
                           | Some (l, r4) \<Rightarrow>
                               (case dot_labels r4 of
                                  (ls, r5) \<Rightarrow>
                                    if ls = [] then None
                                    else Some (a @ atoms @ [c] @ l @ ls, r5))))))"

lemma dot_atoms_shorter: "dot_atoms s = (m, rest) \<Longrightarrow> length rest \<le> length s"
proof (induction s arbitrary: m rest rule: dot_atoms.induct)
  case 1
  then show ?case by simp
next
  case (2 c cs)
  show ?case
  proof (cases "c = CHR ''.'' \<and> takeWhile is_atext cs \<noteq> []")
    case True
    obtain m' rest' where d: "dot_atoms (dropWhile is_atext cs) = (m', rest')"
      by (cases "dot_atoms (dropWhile is_atext cs)")
    from "2.IH"[OF True d] have "length rest' \<le> length (dropWhile is_atext cs)" .
    moreover have "length (dropWhile is_atext cs) \<le> length cs"
      by (rule length_dropWhile_le)
    moreover from "2.prems" True d have "rest = rest'" by simp
    ultimately show ?thesis by simp
  next
    case False
    with "2.prems" show ?thesis by auto
  qed
qed

lemma dot_labels_shorter: "dot_labels s = (m, rest) \<Longrightarrow> length rest \<le> length s"
proof (induction s arbitrary: m rest rule: dot_labels.induct)
  case 1
  then show ?case by simp
next
  case (2 c cs)
  show ?case
  proof (cases "c = CHR ''.''")
    case True
    show ?thesis
    proof (cases "take_label cs")
      case None
      with "2.prems" True show ?thesis by auto
    next
      case (Some p)
      obtain l r where p: "p = (l, r)" by (cases p)
      obtain m' rest' where d: "dot_labels r = (m', rest')" by (cases "dot_labels r")
      from "2.IH"[OF True Some[unfolded p] refl d] have "length rest' \<le> length r" .
      moreover from take_label_shorter Some p have "length r < length cs" by blast
      moreover from "2.prems" True Some p d have "rest = rest'" by simp
      ultimately show ?thesis by simp
    qed
  next
    case False
    with "2.prems" show ?thesis by auto
  qed
qed

lemma match_at_shorter:
  assumes "match_at s = Some (m, rest)"
  shows "length rest < length s"
proof -
  obtain atoms r2 where a: "dot_atoms (dropWhile is_atext s) = (atoms, r2)"
    by (cases "dot_atoms (dropWhile is_atext s)")
  from assms a obtain c r3 where r2: "r2 = c # r3"
    by (cases r2) (auto simp: match_at_def Let_def split: if_splits)
  from assms a r2 obtain l r4 where l: "take_label r3 = Some (l, r4)"
    by (cases "take_label r3") (auto simp: match_at_def Let_def split: if_splits)
  obtain ls r5 where d: "dot_labels r4 = (ls, r5)" by (cases "dot_labels r4")
  from assms a r2 l d have "rest = r5"
    by (auto simp: match_at_def Let_def split: if_splits)
  moreover from dot_labels_shorter[OF d] have "length r5 \<le> length r4" .
  moreover from take_label_shorter[OF l] have "length r4 < length r3" .
  moreover from dot_atoms_shorter[OF a] r2 have "length r3 < length (dropWhile is_atext s)"
    by simp
  moreover have "length (dropWhile is_atext s) \<le> length s" by (rule length_dropWhile_le)
  ultimately show ?thesis by simp
qed

text \<open>
  \<open>EMAIL_RE.finditer(html)\<close>: the matches from left to right, each search starting where
  the last match ended, or one character further when there is no match at a position.
\<close>

function finditer :: "string \<Rightarrow> string list" where
  "finditer [] = []"
| "finditer (c # cs) =
     (case match_at (c # cs) of
        Some (m, rest) \<Rightarrow> m # finditer rest
      | None \<Rightarrow> finditer cs)"
  by pat_completeness auto
termination
  by (relation "measure length") (auto dest: match_at_shorter)

definition IMAGE_EXT :: "string list" where
  "IMAGE_EXT = [''.png'', ''.jpg'', ''.jpeg'', ''.gif'', ''.svg'', ''.webp'', ''.bmp'']"

text \<open>\<open>s.replace(old, "")\<close> for a non-empty \<open>old\<close>.\<close>

function remove_all :: "string \<Rightarrow> string \<Rightarrow> string" where
  "remove_all old [] = []"
| "remove_all old (c # cs) =
     (if old \<noteq> [] \<and> startswith (c # cs) old
      then remove_all old (drop (length old) (c # cs))
      else c # remove_all old cs)"
  by pat_completeness auto
termination
  by (relation "measure (\<lambda>(old, s). length s)") auto

text \<open>
  \<open>candidates\<close> and \<open>filtered\<close> are the two sets the function builds; Python sets compare
  their elements exactly (case-sensitively).
\<close>

definition candidates :: "string \<Rightarrow> string set" where
  "candidates html = set (map (strip_chars (\<lambda>c. c \<in> set ''.,;:'')) (finditer html))"

definition filtered :: "string \<Rightarrow> string set" where
  "filtered html =
     (\<lambda>e. strip (remove_all ''mailto:'' e)) `
        {e \<in> candidates html. \<not> (\<exists>ext \<in> set IMAGE_EXT. endswith (lower e) ext)}"

text \<open>
  \<open>extract_emails_from_html(html, domain)\<close>; \<open>not domain\<close> holds for \<open>None\<close> and for the
  empty string. \<open>sorted\<close> orders strings by their characters' codes.
\<close>

definition extract_emails_from_html :: "string \<Rightarrow> string option \<Rightarrow> string list" where
  "extract_emails_from_html html domain =
     (case domain of
        None \<Rightarrow> sorted_list_of_set (filtered html)
      | Some d \<Rightarrow>
          if d = [] then sorted_list_of_set (filtered html)
          else (let on = sorted_list_of_set
                           {e \<in> filtered html. endswith (lower e) (''@'' @ lower d)};
                    off = sorted_list_of_set
                           {e \<in> filtered html. lower e \<notin> lower ` set on}
                in on @ off))"

section \<open>Site crawler (scraper/scrape.py)\<close>

text \<open>
  \<open>KEYWORDS\<close> is a Python set. Membership tests do not depend on its order; the order in
  which the seeding comprehension iterates over it is not fixed by the language and is a
  parameter (\<open>keyword_order\<close>).
\<close>

definition KEYWORDS :: "string set" where
  "KEYWORDS =
     {''contact'', ''about'', ''team'', ''people'', ''career'', ''careers'', ''join'',
      ''recruit'', ''jobs''}"

text \<open>
  \<open>enqueue_candidates(urls, q)\<close>, with the variables \<open>domain\<close> and \<open>seen\<close> it closes over. It
  appends to \<open>q\<close> in place, so a call that an exception ends (\<open>Inl\<close>) leaves the entries
  appended so far. \<open>urlparse(u)\<close> is the only call in it that can raise.
\<close>

fun enqueue_candidates ::
  "url_lib \<Rightarrow> string \<Rightarrow> string set \<Rightarrow> string list \<Rightarrow> (string \<times> int) list
     \<Rightarrow> (py_error \<times> (string \<times> int) list) + (string \<times> int) list"
where
  "enqueue_candidates L domain seen [] q = Inr q"
| "enqueue_candidates L domain seen (u # urls) q =
     (if u \<in> seen then enqueue_candidates L domain seen urls q
      else if \<not> same_domain L domain u then enqueue_candidates L domain seen urls q
      else (case urlparse L u of
              None \<Rightarrow> Inl (ValueError, q)
            | Some parsed \<Rightarrow>
                (let p = lower (path parsed) in
                 if (\<exists>k \<in> KEYWORDS. contains k p) \<or> p = ''/'' \<or> p = ''''
                 then enqueue_candidates L domain seen urls (q @ [(u, 0)])
                 else enqueue_candidates L domain seen urls q)))"

text \<open>
  The site and the libraries the crawler talks to.
  \<^item> \<open>robots_fetch url\<close>: what \<open>fetch_text(http_client, robots_url, allow_404=True)\<close> does:
    it raises (\<open>Txt_Unbound\<close>: the variable \<open>txt\<close> is never assigned), returns \<open>None\<close> on a
    404, or returns the text.
  \<^item> \<open>robots_parse_raises t\<close>: \<open>robots.parse(t.splitlines())\<close> raises.
  \<^item> \<open>can_fetch t url\<close>: the answer \<open>robots.can_fetch(settings.user_agent, url)\<close> of the
    parser that was fed \<open>t\<close>; \<open>None\<close> when the call raises.
  \<^item> \<open>fetch_text n url\<close>: the outcome of the \<open>n\<close>-th page fetch of the crawl (counted from
    0) when it asks for \<open>url\<close>: the text of the exception, or the page.
  \<^item> \<open>hrefs html\<close>: the \<open>href\<close> attributes of \<open>soup.find_all("a", href=True)\<close>;
    \<open>None\<close> when parsing raises.
\<close>

datatype robots_txt = Txt_Unbound | Txt_None | Txt string

record web =
  lib :: url_lib
  keyword_order :: "string list"
  robots_fetch :: "string \<Rightarrow> robots_txt"
  robots_parse_raises :: "string \<Rightarrow> bool"
  can_fetch :: "string \<Rightarrow> string \<Rightarrow> bool option"
  fetch_text :: "nat \<Rightarrow> string \<Rightarrow> string + string"
  hrefs :: "string \<Rightarrow> string list option"

record settings =
  max_pages_per_site :: int
  max_depth :: int

text \<open>
  The variables of one crawl. \<open>cs_fetches\<close> is not a variable of the source: it logs every
  call of \<open>fetch_text\<close> for a queued URL, with whether it returned a page.
\<close>

record crawl_state =
  cs_seen :: "string set"
  cs_emails :: "string set"
  cs_q :: "(string \<times> int) list"
  cs_pages_visited :: int
  cs_notes :: "string list"
  cs_fetches :: "(string \<times> bool) list"

text \<open>
  The robots check of the loop:
  \<open>robots and txt is not None and not robots.can_fetch(user_agent, url)\<close> inside
  \<open>try ... except Exception: pass\<close>. An unbound \<open>txt\<close> raises \<open>NameError\<close>, which is passed
  over like an exception of \<open>can_fetch\<close>.
\<close>

definition robots_blocks :: "web \<Rightarrow> robots_txt \<Rightarrow> string \<Rightarrow> bool" where
  "robots_blocks W txt url =
     (case txt of Txt t \<Rightarrow> can_fetch W t url = Some False | _ \<Rightarrow> False)"

text \<open>
  The links of a fetched page: every \<open>href\<close>, stripped, except those that start with \<open>#\<close>
  or \<open>mailto:\<close>, joined to the page's URL. \<open>None\<close> when an exception ends the loop.
\<close>

definition page_links :: "web \<Rightarrow> string \<Rightarrow> string \<Rightarrow> string list option" where
  "page_links W url html =
     (case hrefs W html of
        None \<Rightarrow> None
      | Some hs \<Rightarrow>
          those (map (urljoin (lib W) url)
                   (filter (\<lambda>href. \<not> (startswith href ''#'' \<or> startswith href ''mailto:''))
                      (map strip hs))))"

text \<open>
  The part of the loop body after a fetch that returned \<open>html\<close>. The text of the
  exception in a \<open>parse_links_error\<close> note is not modelled.
\<close>

definition visit :: "web \<Rightarrow> string \<Rightarrow> string \<Rightarrow> string \<Rightarrow> crawl_state \<Rightarrow> crawl_state" where
  "visit W domain url html s =
     (let s2 = s\<lparr>cs_pages_visited := cs_pages_visited s + 1,
                  cs_emails := cs_emails s \<union> set (extract_emails_from_html html (Some domain))\<rparr>
      in case page_links W url html of
           None \<Rightarrow> s2\<lparr>cs_notes := cs_notes s2 @ [''parse_links_error:'' @ url @ '':'']\<rparr>
         | Some links \<Rightarrow>
             (case enqueue_candidates (lib W) domain (cs_seen s2) links (cs_q s2) of
                Inl (err, q') \<Rightarrow>
                  s2\<lparr>cs_q := q',
                     cs_notes := cs_notes s2 @ [''parse_links_error:'' @ url @ '':'']\<rparr>
              | Inr q' \<Rightarrow> s2\<lparr>cs_q := q', cs_seen := cs_seen s2 \<union> set links\<rparr>))"

lemma visit_pages_visited: "cs_pages_visited (visit W domain url html s) = cs_pages_visited s + 1"
  by (simp add: visit_def Let_def split: option.splits sum.splits prod.splits)

text \<open>The \<open>while q and pages_visited < settings.max_pages_per_site\<close> loop.\<close>

function crawl_loop :: "web \<Rightarrow> settings \<Rightarrow> string \<Rightarrow> robots_txt \<Rightarrow> crawl_state \<Rightarrow> crawl_state" where
  "crawl_loop W S domain txt s =
     (case cs_q s of
        [] \<Rightarrow> s
      | (url, depth) # q' \<Rightarrow>
          if \<not> cs_pages_visited s < max_pages_per_site S then s
          else (let s1 = s\<lparr>cs_q := q'\<rparr> in
                if depth > max_depth S then crawl_loop W S domain txt s1
                else if robots_blocks W txt url
                then crawl_loop W S domain txt
                       (s1\<lparr>cs_notes := cs_notes s1 @ [''robots_disallow:'' @ url]\<rparr>)
                else (case fetch_text W (length (cs_fetches s1)) url of
                        Inl e \<Rightarrow>
                          crawl_loop W S domain txt
                            (s1\<lparr>cs_notes := cs_notes s1 @ [''fetch_error:'' @ url @ '':'' @ e],
                                cs_fetches := cs_fetches s1 @ [(url, False)]\<rparr>)
                      | Inr html \<Rightarrow>
                          crawl_loop W S domain txt
                            (visit W domain url html
                               (s1\<lparr>cs_fetches := cs_fetches s1 @ [(url, True)]\<rparr>)))))"
  by pat_completeness auto
termination
  by (relation "measures [\<lambda>(W, S, domain, txt, s). nat (max_pages_per_site S - cs_pages_visited s),
                          \<lambda>(W, S, domain, txt, s). length (cs_q s)]")
     (auto simp: visit_pages_visited)

text \<open>The equation of the loop applies to every state; it is unfolded by hand.\<close>

declare crawl_loop.simps [simp del]

text \<open>
  \<open>crawl_site_for_emails\<close> up to the end of its loop. An exception outside the \<open>try\<close>
  blocks (\<open>urljoin\<close> on the base URL, the seeding call of \<open>enqueue_candidates\<close>) leaves the
  function (\<open>Inl\<close>).
\<close>

definition robots_root_disallowed :: "web \<Rightarrow> string \<Rightarrow> string \<Rightarrow> bool" where
  "robots_root_disallowed W robots_url base_url =
     (case robots_fetch W robots_url of
        Txt t \<Rightarrow> \<not> robots_parse_raises W t \<and> can_fetch W t base_url = Some False
      | _ \<Rightarrow> False)"

definition crawl_run :: "web \<Rightarrow> settings \<Rightarrow> string \<Rightarrow> py_error + crawl_state" where
  "crawl_run W S domain =
     (let base_url = ''https://'' @ domain @ ''/'' in
      case urljoin (lib W) base_url ''/robots.txt'' of
        None \<Rightarrow> Inl ValueError
      | Some robots_url \<Rightarrow>
          if robots_root_disallowed W robots_url base_url
          then Inr \<lparr>cs_seen = {}, cs_emails = {}, cs_q = [], cs_pages_visited = 0,
                    cs_notes = [''robots_disallow:root''], cs_fetches = []\<rparr>
          else (case those (map (\<lambda>k. urljoin (lib W) base_url (''/'' @ k)) (keyword_order W)) of
                  None \<Rightarrow> Inl ValueError
                | Some keyword_urls \<Rightarrow>
                    (case enqueue_candidates (lib W) domain {} (base_url # keyword_urls) [] of
                       Inl (err, q) \<Rightarrow> Inl err
                     | Inr q \<Rightarrow>
                         Inr (crawl_loop W S domain (robots_fetch W robots_url)
                                \<lparr>cs_seen = set (map fst q), cs_emails = {}, cs_q = q,
                                  cs_pages_visited = 0, cs_notes = [], cs_fetches = []\<rparr>))))"

definition crawl_site_for_emails ::
  "web \<Rightarrow> settings \<Rightarrow> string \<Rightarrow> py_error + (string list \<times> string list)"
where
  "crawl_site_for_emails W S domain =
     (case crawl_run W S domain of
        Inl err \<Rightarrow> Inl err
      | Inr s \<Rightarrow> Inr (sorted_list_of_set (cs_emails s), cs_notes s))"

section \<open>One company (main.py)\<close>

text \<open>
  \<open>emails_by_source[e] = emails_by_source.get(e, source)\<close> on the dictionary kept as an
  association list in insertion order: a key that is present keeps its value and its
  place, a new key goes to the end.
\<close>

definition record_source :: "string \<Rightarrow> string \<Rightarrow> (string \<times> string) list \<Rightarrow> (string \<times> string) list" where
  "record_source source e d = (if e \<in> fst ` set d then d else d @ [(e, source)])"

text \<open>
  What the network stages of \<open>process_company\<close> deliver is a parameter:
  \<^item> the domain found (\<open>None\<close> or a string) and the emails the crawl returned;
  \<^item> Hunter: switched off; the domain search raised; the search returned emails and the
    bulk verification raised; or both returned;
  \<^item> Apollo: switched off; the call raised; or the \<open>email\<close> field of each person record
    (\<open>None\<close> when the record has none).
\<close>

datatype hunter_outcome =
    Hunter_Off
  | Hunter_Search_Raised
  | Hunter_Verify_Raised "string list"
  | Hunter_Ok "string list" "(string \<times> verdict) list"

datatype apollo_outcome = Apollo_Off | Apollo_Raised | Apollo_Ok "string option list"

text \<open>Step 2: the crawled emails, when a domain was found (\<open>if domain\<close>).\<close>

definition add_crawl :: "string option \<Rightarrow> string list \<Rightarrow> (string \<times> string) list \<Rightarrow> (string \<times> string) list" where
  "add_crawl domain crawl_emails d =
     (if domain \<noteq> None \<and> domain \<noteq> Some [] then fold (record_source ''page'') crawl_emails d
      else d)"

text \<open>Step 3: Hunter's emails, and the verdicts it returned.\<close>

definition add_hunter :: "hunter_outcome \<Rightarrow> (string \<times> string) list \<Rightarrow> (string \<times> string) list" where
  "add_hunter h d =
     (case h of
        Hunter_Off \<Rightarrow> d
      | Hunter_Search_Raised \<Rightarrow> d
      | Hunter_Verify_Raised hunter_emails \<Rightarrow> fold (record_source ''hunter'') hunter_emails d
      | Hunter_Ok hunter_emails hv \<Rightarrow> fold (record_source ''hunter'') hunter_emails d)"

definition hunter_verdicts :: "hunter_outcome \<Rightarrow> (string \<times> verdict) list" where
  "hunter_verdicts h = (case h of Hunter_Ok hunter_emails hv \<Rightarrow> hv | _ \<Rightarrow> [])"

text \<open>Step 4: Apollo's emails; \<open>if em\<close> skips a missing and an empty one.\<close>

definition add_apollo :: "apollo_outcome \<Rightarrow> (string \<times> string) list \<Rightarrow> (string \<times> string) list" where
  "add_apollo a d =
     (case a of
        Apollo_Ok people_emails \<Rightarrow>
          fold (record_source ''apollo'')
            (concat (map (\<lambda>em. case em of None \<Rightarrow> [] | Some e \<Rightarrow> if e = [] then [] else [e])
                       people_emails)) d
      | _ \<Rightarrow> d)"

text \<open>
  The evidence fields of the \<open>ResultRow\<close> that \<open>process_company\<close> returns, before they are
  serialised (\<open>";".join\<close>, \<open>json_dumps_sane\<close>). The fields copied from the input row, the
  notes and the timestamp are left out.
\<close>

record ResultRow =
  found_emails :: "string list"
  emails_with_source :: "(string \<times> string) list"
  hunter_verification :: "(string \<times> verdict) list"
  confidence :: string
  extraction_method :: string

text \<open>
  Steps 2 to 5 of \<open>process_company\<close>. The scorer is called with the filtered and
  deduplicated list, the verdicts, and the dictionary \<open>emails_by_source\<close> as it is; the
  same dictionary goes into the row.
\<close>

definition process_company ::
  "string option \<Rightarrow> string \<Rightarrow> string list \<Rightarrow> hunter_outcome \<Rightarrow> apollo_outcome \<Rightarrow> ResultRow"
where
  "process_company domain discovery_method crawl_emails h a =
     (let emails_by_source = add_apollo a (add_hunter h (add_crawl domain crawl_emails []));
          hv = hunter_verdicts h;
          emails = dedupe_keep_order (filter_emails_basic (map fst emails_by_source) domain);
          (conf, method) = assess_confidence emails hv emails_by_source
      in \<lparr>found_emails = emails,
          emails_with_source = emails_by_source,
          hunter_verification = hv,
          confidence = conf,
          extraction_method =
            (if domain \<noteq> None \<and> domain \<noteq> Some [] then method
             else if discovery_method \<noteq> [] then discovery_method else ''serp'')\<rparr>)"

section \<open>Notions used in the statements\<close>

text \<open>
  An email whose domain part is on the denylist: it has an \<open>@\<close>, and the text after the
  first \<open>@\<close>, lower-cased, is a disposable domain. This is the test of
  \<open>filter_emails_basic\<close>.
\<close>

definition on_denylist :: "string \<Rightarrow> bool" where
  "on_denylist e \<longleftrightarrow>
     CHR ''@'' \<in> set e \<and> lower (split1 CHR ''@'' e ! 1) \<in> DISPOSABLE_DOMAINS"

text \<open>
  A library that answers as \<open>urllib.parse\<close> and \<open>tldextract\<close> do on the URLs of the
  examples of the specification, and raises on everything else.
\<close>

definition example_lib :: url_lib where
  "example_lib =
     \<lparr>urlparse = map_of
        [(''https://Sub.Example.co.uk'', \<lparr>hostname = ''sub.example.co.uk'', path = ''''\<rparr>),
         (''http://example.com'', \<lparr>hostname = ''example.com'', path = ''''\<rparr>),
         (''http://example.ai/path'', \<lparr>hostname = ''example.ai'', path = ''/path''\<rparr>)],
      tld_extract = map_of
        [(''sub.example.co.uk'', (''example'', ''co.uk'')),
         (''example.com'', (''example'', ''com'')),
         (''example.ai'', (''example'', ''ai''))],
      urljoin = (\<lambda>base rel. None)\<rparr>"


text \<open>
  A small site for running the crawler. The library answers as \<open>urllib.parse\<close> and
  \<open>tldextract\<close> do on URLs \<open>https://host/path\<close> with a lower-case host of two labels, no
  port, query or fragment, and on references that start with \<open>/\<close>. \<open>KEYWORDS_order\<close> is
  one order in which the set \<open>KEYWORDS\<close> may be iterated.
\<close>

definition demo_lib :: url_lib where
  "demo_lib =
     \<lparr>urlparse = (\<lambda>u. if startswith u ''https://''
                       then Some \<lparr>hostname = takeWhile (\<lambda>c. c \<noteq> CHR ''/'') (drop 8 u),
                                  path = dropWhile (\<lambda>c. c \<noteq> CHR ''/'') (drop 8 u)\<rparr>
                       else None),
      tld_extract = (\<lambda>h. Some (takeWhile (\<lambda>c. c \<noteq> CHR ''.'') h,
                                drop 1 (dropWhile (\<lambda>c. c \<noteq> CHR ''.'') h))),
      urljoin = (\<lambda>base rel.
                   if startswith rel ''/''
                   then Some (''https://'' @ takeWhile (\<lambda>c. c \<noteq> CHR ''/'') (drop 8 base) @ rel)
                   else None)\<rparr>"

definition KEYWORDS_order :: "string list" where
  "KEYWORDS_order =
     [''contact'', ''about'', ''team'', ''people'', ''career'', ''careers'', ''join'',
      ''recruit'', ''jobs'']"

text \<open>A site without \<open>robots.txt\<close> on which every page fetch raises.\<close>

definition down_web :: web where
  "down_web =
     \<lparr>lib = demo_lib, keyword_order = KEYWORDS_order,
      robots_fetch = (\<lambda>url. Txt_None),
      robots_parse_raises = (\<lambda>t. False),
      can_fetch = (\<lambda>t url. Some True),
      fetch_text = (\<lambda>n url. Inl ''503''),
      hrefs = (\<lambda>html. Some [])\<rparr>"

text \<open>
  A site without \<open>robots.txt\<close> that has three pages: the root, which links to
  \<open>/team/a\<close> twice; \<open>/team/a\<close>, which links to \<open>/team/a/b\<close>; and \<open>/team/a/b\<close>, which shows an
  address. Every other URL answers 404, so its fetch raises.
\<close>

definition demo_web :: web where
  "demo_web =
     \<lparr>lib = demo_lib, keyword_order = KEYWORDS_order,
      robots_fetch = (\<lambda>url. Txt_None),
      robots_parse_raises = (\<lambda>t. False),
      can_fetch = (\<lambda>t url. Some True),
      fetch_text = (\<lambda>n url.
         case map_of
                [(''https://x.com/'', ''<a href=/team/a>A</a> <a href=/team/a>A</a>''),
                 (''https://x.com/team/a'', ''<a href=/team/a/b>B</a>''),
                 (''https://x.com/team/a/b'', ''b@x.com'')] url of
           None \<Rightarrow> Inl ''404''
         | Some html \<Rightarrow> Inr html),
      hrefs = (\<lambda>html.
         Some (case map_of
                [(''<a href=/team/a>A</a> <a href=/team/a>A</a>'', [''/team/a'', ''/team/a'']),
                 (''<a href=/team/a/b>B</a>'', [''/team/a/b''])] html of
                 None \<Rightarrow> []
               | Some hs \<Rightarrow> hs))\<rparr>"


section \<open>Properties of the confidence scorer\<close>

lemma hunter_valid_iff:
  "hunter_valid hv e \<longleftrightarrow>
     (\<exists>v. map_of hv e = Some v \<and> map_of v ''result'' = Some (JStr ''valid''))"
  by (cases hv) (auto simp: hunter_valid_def split: option.splits)

lemma loop_hunter_find:
  "loop_hunter hv src es =
     map_option (\<lambda>e. (''high'', get_or src e ''page'')) (find (hunter_valid hv) es)"
  by (induction es) simp_all

lemma loop_apollo_iff:
  "loop_apollo src es =
     (if \<exists>e\<in>set es. map_of src e = Some ''apollo'' then Some (''high'', ''apollo'') else None)"
  by (induction es) simp_all

lemma loop_page_iff:
  "loop_page src es =
     (if \<exists>e\<in>set es. map_of src e = Some ''page'' \<and>
           (dotted_name (local_part e) \<or> local_part e \<notin> GENERIC_PREFIXES)
      then Some (''medium'', ''page'') else None)"
  by (induction es) auto

text \<open>
  Claim C3. \<open>assess_confidence\<close> is a function of its three arguments, and its result is
  fixed by the first rule that applies, in this order: the first email of the list whose
  verdict has \<open>result\<close> equal to \<open>valid\<close> gives \<open>high\<close> with that email's discovery source;
  otherwise an email whose source is \<open>apollo\<close> gives \<open>high\<close> and \<open>apollo\<close>; otherwise an
  email whose source is \<open>page\<close> and whose local part is dotted with no empty segment, or
  is not a generic prefix, gives \<open>medium\<close> and \<open>page\<close>; otherwise a non-empty list gives
  \<open>low\<close> with the first email's discovery source; otherwise \<open>low\<close> and \<open>serp\<close>. The
  discovery source of an email is its entry in \<open>emails_by_source\<close>, and \<open>page\<close> for an
  email that has no entry (\<open>emails_by_source.get(e, "page")\<close>).
\<close>

theorem assess_confidence_priority:
  "assess_confidence emails hv src =
     (case find (\<lambda>e. \<exists>v. map_of hv e = Some v \<and> map_of v ''result'' = Some (JStr ''valid''))
             emails of
        Some e \<Rightarrow> (''high'', get_or src e ''page'')
      | None \<Rightarrow>
          if \<exists>e\<in>set emails. map_of src e = Some ''apollo'' then (''high'', ''apollo'')
          else if \<exists>e\<in>set emails. map_of src e = Some ''page'' \<and>
                    (dotted_name (local_part e) \<or> local_part e \<notin> GENERIC_PREFIXES)
               then (''medium'', ''page'')
          else if emails \<noteq> [] then (''low'', get_or src (hd emails) ''page'')
          else (''low'', ''serp''))"
proof -
  have "(\<lambda>e. \<exists>v. map_of hv e = Some v \<and> map_of v ''result'' = Some (JStr ''valid''))
          = hunter_valid hv"
    by (rule ext) (simp add: hunter_valid_iff)
  then have f: "find (\<lambda>e. \<exists>v. map_of hv e = Some v \<and> map_of v ''result'' = Some (JStr ''valid''))
                  emails
                = find (hunter_valid hv) emails"
    by simp
  have low: "(case emails of e0 # _ \<Rightarrow> (''low'', get_or src e0 ''page'') | [] \<Rightarrow> (''low'', ''serp''))
             = (if emails \<noteq> [] then (''low'', get_or src (hd emails) ''page'') else (''low'', ''serp''))"
    by (cases emails) simp_all
  show ?thesis
    unfolding f assess_confidence_def loop_hunter_find loop_apollo_iff loop_page_iff low
    by (cases "find (hunter_valid hv) emails") (simp_all, blast)
qed

text \<open>
  The rule at work: a generic address found on a page next to an address Hunter
  verified gives \<open>high\<close> with the verified address's source.
\<close>

theorem assess_confidence_priority_witness:
  "assess_confidence [''info@x.com'', ''b@x.com'']
     [(''b@x.com'', [(''result'', JStr ''valid'')])]
     [(''info@x.com'', ''page''), (''b@x.com'', ''hunter'')] = (''high'', ''hunter'')"
  using assess_confidence_priority
          [of "[''info@x.com'', ''b@x.com'']" "[(''b@x.com'', [(''result'', JStr ''valid'')])]"
              "[(''info@x.com'', ''page''), (''b@x.com'', ''hunter'')]"]
  by (simp add: get_or_def)

section \<open>Properties of the evidence pipeline\<close>

lemma filter_emails_basic_set:
  "set (filter_emails_basic es d) =
     strip ` {e \<in> set es. CHR ''@'' \<in> set e \<and> \<not> on_denylist e}"
  by (induction es) (auto simp: on_denylist_def Let_def)

lemma dedupe_loop_subset: "set (dedupe_loop seen xs) \<subseteq> set xs"
  by (induction xs arbitrary: seen) (auto simp: Let_def)

lemma found_emails_eq:
  "found_emails (process_company d m c h a) =
     dedupe_keep_order
       (filter_emails_basic (map fst (emails_with_source (process_company d m c h a))) d)"
  by (simp add: process_company_def Let_def split: prod.splits)

text \<open>
  Claim C5, as the code has it. The denylist is applied to the list of keys of
  \<open>emails_by_source\<close> before that list is deduplicated and scored: every address of
  \<open>found_emails\<close>, the list the scorer walks through, is the stripped form of a key that
  is not on the denylist, and when the keys carry no surrounding whitespace no address
  of \<open>found_emails\<close> is on the denylist.
  The dictionary \<open>emails_by_source\<close> itself is not filtered; the scorer receives it as
  its table of sources, next to the filtered list.
\<close>

theorem disposable_filtered_before_scoring:
  "(\<forall>x \<in> set (found_emails (process_company d m c h a)).
       \<exists>e \<in> fst ` set (emails_with_source (process_company d m c h a)).
          x = strip e \<and> \<not> on_denylist e)
   \<and> ((\<forall>e \<in> fst ` set (emails_with_source (process_company d m c h a)). strip e = e)
        \<longrightarrow> (\<forall>x \<in> set (found_emails (process_company d m c h a)). \<not> on_denylist x))
   \<and> confidence (process_company d m c h a) =
       fst (assess_confidence (found_emails (process_company d m c h a))
              (hunter_verification (process_company d m c h a))
              (emails_with_source (process_company d m c h a)))"
proof -
  let ?r = "process_company d m c h a"
  have sub: "set (found_emails ?r)
               \<subseteq> strip ` {e \<in> fst ` set (emails_with_source ?r).
                             CHR ''@'' \<in> set e \<and> \<not> on_denylist e}"
    using dedupe_loop_subset[of "{}" "filter_emails_basic (map fst (emails_with_source ?r)) d"]
    by (simp add: found_emails_eq dedupe_keep_order_def filter_emails_basic_set)
  have 1: "\<forall>x \<in> set (found_emails ?r).
             \<exists>e \<in> fst ` set (emails_with_source ?r). x = strip e \<and> \<not> on_denylist e"
    using sub by blast
  have 2: "(\<forall>e \<in> fst ` set (emails_with_source ?r). strip e = e)
            \<longrightarrow> (\<forall>x \<in> set (found_emails ?r). \<not> on_denylist x)"
  proof (intro impI ballI)
    fix x
    assume st: "\<forall>e \<in> fst ` set (emails_with_source ?r). strip e = e"
      and x: "x \<in> set (found_emails ?r)"
    from 1 x obtain e where
      e: "e \<in> fst ` set (emails_with_source ?r)" "x = strip e" "\<not> on_denylist e"
      by blast
    with st have "x = e" by auto
    with e show "\<not> on_denylist x" by simp
  qed
  have 3: "confidence ?r =
             fst (assess_confidence (found_emails ?r) (hunter_verification ?r)
                    (emails_with_source ?r))"
    by (simp add: process_company_def Let_def split: prod.splits)
  from 1 2 3 show ?thesis by blast
qed

text \<open>
  A crawl that found a disposable and an ordinary address: the keys are stripped, and
  only the ordinary address reaches the scorer.
\<close>

theorem disposable_filtered_before_scoring_witness:
  "(\<exists>e \<in> fst ` set (emails_with_source
        (process_company (Some ''x.com'') ''website'' [''a@mailinator.com'', ''jane.doe@x.com'']
           Hunter_Off Apollo_Off)). True)
   \<and> found_emails
        (process_company (Some ''x.com'') ''website'' [''a@mailinator.com'', ''jane.doe@x.com'']
           Hunter_Off Apollo_Off) = [''jane.doe@x.com'']
   \<and> \<not> on_denylist ''jane.doe@x.com''"
proof -
  let ?r = "process_company (Some ''x.com'') ''website'' [''a@mailinator.com'', ''jane.doe@x.com'']
              Hunter_Off Apollo_Off"
  have keys: "\<forall>e \<in> fst ` set (emails_with_source ?r). strip e = e"
    by code_simp
  have found: "found_emails ?r = [''jane.doe@x.com'']"
    by code_simp
  have ne: "\<exists>e \<in> fst ` set (emails_with_source ?r). True"
    by code_simp
  from disposable_filtered_before_scoring
         [of "Some ''x.com''" "''website''" "[''a@mailinator.com'', ''jane.doe@x.com'']"
             Hunter_Off Apollo_Off] keys
  have "\<forall>x \<in> set (found_emails ?r). \<not> on_denylist x" by blast
  with found ne show ?thesis by simp
qed

text \<open>
  Claim C5 as stated fails: the evidence dictionary of the row, which is also the
  dictionary handed to the scorer, keeps a disposable address that the crawl found.
\<close>

theorem evidence_map_keeps_disposable:
  "emails_with_source
     (process_company (Some ''x.com'') ''website'' [''a@mailinator.com''] Hunter_Off Apollo_Off)
     = [(''a@mailinator.com'', ''page'')]
   \<and> on_denylist ''a@mailinator.com''"
  by code_simp


section \<open>Properties of the checkpoint merge\<close>

lemma processed_keys_iff:
  "(a, b) \<in> processed_keys chk \<longleftrightarrow>
     (\<exists>c \<in> set chk. \<exists>n d. company_name c = Some n \<and> row_domain c = Some d \<and>
          a = strip n \<and> b = strip d)"
  by (simp add: processed_keys_def) metis

text \<open>
  Which rows the merge keeps: with a non-empty checkpoint, a row is dropped exactly when
  a checkpoint row has its stripped company name and a domain that is empty after
  stripping.
\<close>

lemma merge_checkpoint_kept_iff:
  "r \<in> set (merge_checkpoint df chk) \<longleftrightarrow>
     r \<in> set df \<and>
     (chk = [] \<or>
      \<not> (\<exists>c \<in> set chk. \<exists>n d. company_name c = Some n \<and> row_domain c = Some d \<and>
             fst (row_key r) = strip n \<and> strip d = []))"
proof -
  have "row_key r = (fst (row_key r), [])" by (simp add: row_key_def)
  then have "row_key r \<in> processed_keys chk \<longleftrightarrow>
         (\<exists>c \<in> set chk. \<exists>n d. company_name c = Some n \<and> row_domain c = Some d \<and>
             fst (row_key r) = strip n \<and> strip d = [])"
    using processed_keys_iff[of "fst (row_key r)" "[]" chk] by (metis (lifting))
  then show ?thesis by (auto simp: merge_checkpoint_def)
qed

text \<open>
  Claim C8 at a concrete input. The checkpoint holds the row of \<open>Acme\<close> with the domain
  found for it; the input table has the row of \<open>Acme\<close>. The key of the input row is
  \<open>(Acme, "")\<close>, the set \<open>processed\<close> is \<open>{(Acme, acme.com)}\<close>, and the row is kept although
  its company name is in the checkpoint.
\<close>

theorem merge_checkpoint_keeps_processed_row:
  "merge_checkpoint
     [\<lparr>company_name = Some ''Acme'', row_domain = None, other_columns = ()\<rparr>]
     [\<lparr>company_name = Some ''Acme'', row_domain = Some ''acme.com'', other_columns = ()\<rparr>]
   = [\<lparr>company_name = Some ''Acme'', row_domain = None, other_columns = ()\<rparr>]"
  by code_simp


section \<open>Properties of the rate limiter\<close>

lemma purge_head: "purge now ts = t0 # rest \<Longrightarrow> now - t0 \<le> 60"
  by (induction ts) (auto split: if_splits)

lemma acquire_check_wait:
  "acquire_check now rl = Inr (rl', Some x) \<Longrightarrow> 1 / 100 \<le> x"
  by (auto simp: acquire_check_def Let_def split: list.splits if_splits dest: purge_head)

lemma purge_subset: "set (purge now ts) \<subseteq> set ts"
  by (induction ts) auto

lemma acquire_check_wait_upper:
  "acquire_check now rl = Inr (rl', Some x) \<Longrightarrow> \<forall>t \<in> set (timestamps rl). t \<le> now \<Longrightarrow>
   x \<le> 60 + 1 / 100"
proof -
  assume a: "acquire_check now rl = Inr (rl', Some x)" and b: "\<forall>t \<in> set (timestamps rl). t \<le> now"
  from a obtain t0 rest where p: "purge now (timestamps rl) = t0 # rest" and x: "x = 60 - (now - t0) + 1 / 100"
    by (auto simp: acquire_check_def Let_def split: list.splits if_splits)
  from p purge_subset[of now "timestamps rl"] have "t0 \<in> set (timestamps rl)"
    by (metis list.set_intros(1) subsetD)
  with b have "t0 \<le> now" by blast
  with x show ?thesis by simp
qed

text \<open>
  Claim C10. A limiter built from any integer has the budget \<open>max 1 n\<close>, at least 1.
  Whatever timestamps it holds, the first part of \<open>acquire\<close> does not raise and leaves the
  budget alone, and so does the recording of the timestamp; a wait it asks for is at
  least 0.01 seconds and, when no timestamp lies in the future, at most 60.01 seconds. A
  limiter built with budget 0 lets its first caller through without a wait, and makes a
  caller that arrives within the next 60 seconds wait until the first timestamp is 60.01
  seconds old.
\<close>

theorem rate_limiter_budget_at_least_one:
  "per_minute (RateLimiter_init n) = max 1 n
   \<and> 1 \<le> per_minute (RateLimiter_init n)
   \<and> (\<exists>rl w. acquire_check now ((RateLimiter_init n)\<lparr>timestamps := ts\<rparr>) = Inr (rl, w)
         \<and> per_minute rl = max 1 n \<and> per_minute (acquire_record t rl) = max 1 n
         \<and> (case w of None \<Rightarrow> True
             | Some wait_for \<Rightarrow> 1 / 100 \<le> wait_for
                 \<and> ((\<forall>t' \<in> set ts. t' \<le> now) \<longrightarrow> wait_for \<le> 60 + 1 / 100)))
   \<and> acquire_check now (RateLimiter_init 0) = Inr (RateLimiter_init 0, None)
   \<and> (t0 \<le> now \<and> now \<le> t0 + 60 \<longrightarrow>
        acquire_check now (acquire_record t0 (RateLimiter_init 0))
          = Inr (acquire_record t0 (RateLimiter_init 0), Some (60 - (now - t0) + 1 / 100)))"
proof -
  let ?rl = "(RateLimiter_init n)\<lparr>timestamps := ts\<rparr>"
  have "\<not> (\<exists>e. acquire_check now ?rl = Inl e)"
    by (auto simp: RateLimiter_init_def acquire_check_def Let_def split: list.splits)
  then obtain rl w where r: "acquire_check now ?rl = Inr (rl, w)"
    by (cases "acquire_check now ?rl") auto
  then have pm: "per_minute rl = max 1 n" "per_minute (acquire_record t rl) = max 1 n"
    by (auto simp: RateLimiter_init_def acquire_check_def acquire_record_def Let_def
             split: list.splits if_splits)
  have w: "case w of None \<Rightarrow> True
           | Some wait_for \<Rightarrow> 1 / 100 \<le> wait_for
               \<and> ((\<forall>t' \<in> set ts. t' \<le> now) \<longrightarrow> wait_for \<le> 60 + 1 / 100)"
  proof (cases w)
    case None
    then show ?thesis by simp
  next
    case (Some x)
    with r acquire_check_wait[of now ?rl rl x] acquire_check_wait_upper[of now ?rl rl x]
    show ?thesis by simp
  qed
  have first: "acquire_check now (RateLimiter_init 0) = Inr (RateLimiter_init 0, None)"
    by (simp add: RateLimiter_init_def acquire_check_def)
  have second: "t0 \<le> now \<and> now \<le> t0 + 60 \<longrightarrow>
        acquire_check now (acquire_record t0 (RateLimiter_init 0))
          = Inr (acquire_record t0 (RateLimiter_init 0), Some (60 - (now - t0) + 1 / 100))"
    by (simp add: RateLimiter_init_def acquire_check_def acquire_record_def)
  from r pm w first second show ?thesis
    by (simp add: RateLimiter_init_def)
qed

theorem rate_limiter_budget_at_least_one_witness:
  "(0 :: real) \<le> 5 \<and> (5 :: real) \<le> 0 + 60
   \<and> per_minute (RateLimiter_init (- 3)) = 1
   \<and> acquire_check 5 ((RateLimiter_init (- 3))\<lparr>timestamps := [0]\<rparr>)
        = Inr ((RateLimiter_init (- 3))\<lparr>timestamps := [0]\<rparr>, Some (5501 / 100))
   \<and> acquire_check 5 (acquire_record 0 (RateLimiter_init 0))
        = Inr (acquire_record 0 (RateLimiter_init 0), Some (5501 / 100))"
  using rate_limiter_budget_at_least_one [of "- 3" 5 "[0]" 0 0]
  by (simp add: RateLimiter_init_def acquire_check_def acquire_record_def)

text \<open>
  Claim C7 at a concrete schedule. The limiter allows one call per minute. Task 0 calls
  at second 0 and completes. Tasks 1 and 2 call at seconds 1 and 2; each finds the one
  timestamp, and sleeps until second 60.01. Both wake then, and each records its
  timestamp without looking at the deque again: two completions at second 60.01.
\<close>

theorem rate_limiter_interleaved_exceeds_budget:
  "\<exists>s. run [Call 0 0, Call 1 1, Call 2 2, Wake 1 (6001 / 100), Wake 2 (6001 / 100)]
          (sched_init 1) = Some s
      \<and> completed s = [(0, 0), (1, 6001 / 100), (2, 6001 / 100)]
      \<and> per_minute (limiter s) = 1
      \<and> completions_in_window 1 s = 2"
  by (simp add: sched_init_def RateLimiter_init_def acquire_check_def acquire_record_def
                completions_in_window_def Let_def)


section \<open>Properties of the domain normalizer\<close>

lemma lower_dot: "lower ''.'' = ''.''"
  by (simp add: lower_def lower_char_def)

lemma normalize_domain_returns: "\<exists>r. normalize_domain L v = Inr r"
  by (auto simp: normalize_domain_def Let_def split: option.splits sum.splits)

lemma normalize_domain_None_iff:
  "normalize_domain L (Some u) = Inr None \<longleftrightarrow>
     strip u = [] \<or>
     (case urlparse L (if \<not> contains ''://'' (strip u) then ''http://'' @ strip u else strip u) of
        None \<Rightarrow> True
      | Some parsed \<Rightarrow>
          hostname parsed = [] \<or>
          (case tld_extract L (hostname parsed) of
             None \<Rightarrow> True
           | Some (ext_domain, ext_suffix) \<Rightarrow> ext_domain = [] \<or> ext_suffix = []))"
  by (auto simp: normalize_domain_def normalize_try_def Let_def strip_def strip_chars_def
           split: option.splits sum.splits if_splits)

lemma normalize_domain_Some:
  "strip u \<noteq> [] \<Longrightarrow>
   urlparse L (if \<not> contains ''://'' (strip u) then ''http://'' @ strip u else strip u)
     = Some parsed \<Longrightarrow>
   hostname parsed \<noteq> [] \<Longrightarrow>
   tld_extract L (hostname parsed) = Some (ext_domain, ext_suffix) \<Longrightarrow>
   ext_domain \<noteq> [] \<Longrightarrow> ext_suffix \<noteq> [] \<Longrightarrow>
   normalize_domain L (Some u) = Inr (Some (ext_domain @ ''.'' @ ext_suffix))"
  by (auto simp: normalize_domain_def normalize_try_def Let_def strip_def strip_chars_def
           split: option.splits sum.splits if_splits)

text \<open>
  Claim C9. For every string and every behaviour of the two libraries,
  \<open>normalize_domain\<close> returns (no exception reaches the caller). The result is \<open>None\<close>
  exactly when the stripped input is empty, or parsing raises or finds no host name, or
  \<open>tldextract\<close> raises or leaves the domain label or the suffix empty; otherwise it is
  the label, a dot and the suffix, which is lower-case when the library's label and
  suffix are (the library lower-cases the host name). Where the libraries answer as
  \<open>urllib.parse\<close> and \<open>tldextract\<close> do on the examples, the examples hold.
\<close>

theorem normalize_domain_never_raises:
  "(\<exists>r. normalize_domain L v = Inr r)
   \<and> (normalize_domain L (Some u) = Inr None \<longleftrightarrow>
        strip u = [] \<or>
        (case urlparse L (if \<not> contains ''://'' (strip u) then ''http://'' @ strip u
                          else strip u) of
           None \<Rightarrow> True
         | Some parsed \<Rightarrow>
             hostname parsed = [] \<or>
             (case tld_extract L (hostname parsed) of
                None \<Rightarrow> True
              | Some (ext_domain, ext_suffix) \<Rightarrow> ext_domain = [] \<or> ext_suffix = [])))
   \<and> (strip u \<noteq> [] \<and>
        urlparse L (if \<not> contains ''://'' (strip u) then ''http://'' @ strip u else strip u)
          = Some parsed \<and>
        hostname parsed \<noteq> [] \<and>
        tld_extract L (hostname parsed) = Some (ext_domain, ext_suffix) \<and>
        ext_domain \<noteq> [] \<and> ext_suffix \<noteq> [] \<longrightarrow>
        normalize_domain L (Some u) = Inr (Some (ext_domain @ ''.'' @ ext_suffix)) \<and>
        (lower ext_domain = ext_domain \<and> lower ext_suffix = ext_suffix \<longrightarrow>
           lower (ext_domain @ ''.'' @ ext_suffix) = ext_domain @ ''.'' @ ext_suffix))
   \<and> normalize_domain L (Some '''') = Inr None
   \<and> normalize_domain L None = Inr None
   \<and> (urlparse L ''https://Sub.Example.co.uk''
          = Some \<lparr>hostname = ''sub.example.co.uk'', path = ''''\<rparr> \<and>
        tld_extract L ''sub.example.co.uk'' = Some (''example'', ''co.uk'') \<longrightarrow>
        normalize_domain L (Some ''https://Sub.Example.co.uk'') = Inr (Some ''example.co.uk''))
   \<and> (urlparse L ''http://example.com'' = Some \<lparr>hostname = ''example.com'', path = ''''\<rparr> \<and>
        tld_extract L ''example.com'' = Some (''example'', ''com'') \<longrightarrow>
        normalize_domain L (Some ''example.com'') = Inr (Some ''example.com''))
   \<and> (urlparse L ''http://example.ai/path''
          = Some \<lparr>hostname = ''example.ai'', path = ''/path''\<rparr> \<and>
        tld_extract L ''example.ai'' = Some (''example'', ''ai'') \<longrightarrow>
        normalize_domain L (Some ''http://example.ai/path'') = Inr (Some ''example.ai''))"
proof -
  have s1: "strip ''https://Sub.Example.co.uk'' = ''https://Sub.Example.co.uk''"
    and s2: "strip ''example.com'' = ''example.com''"
    and s3: "strip ''http://example.ai/path'' = ''http://example.ai/path''"
    by code_simp+
  have c1: "contains ''://'' ''https://Sub.Example.co.uk''"
    and c2: "\<not> contains ''://'' ''example.com''"
    and c3: "contains ''://'' ''http://example.ai/path''"
    by code_simp+
  have e1: "urlparse L ''https://Sub.Example.co.uk''
              = Some \<lparr>hostname = ''sub.example.co.uk'', path = ''''\<rparr> \<and>
            tld_extract L ''sub.example.co.uk'' = Some (''example'', ''co.uk'') \<longrightarrow>
            normalize_domain L (Some ''https://Sub.Example.co.uk'') = Inr (Some ''example.co.uk'')"
    using normalize_domain_Some
            [of "''https://Sub.Example.co.uk''" L
                "\<lparr>hostname = ''sub.example.co.uk'', path = ''''\<rparr>" "''example''" "''co.uk''"]
    by (simp add: s1 c1 del: contains.simps)
  have e2: "urlparse L ''http://example.com'' = Some \<lparr>hostname = ''example.com'', path = ''''\<rparr> \<and>
            tld_extract L ''example.com'' = Some (''example'', ''com'') \<longrightarrow>
            normalize_domain L (Some ''example.com'') = Inr (Some ''example.com'')"
    using normalize_domain_Some
            [of "''example.com''" L "\<lparr>hostname = ''example.com'', path = ''''\<rparr>"
                "''example''" "''com''"]
    by (simp add: s2 c2 del: contains.simps)
  have e3: "urlparse L ''http://example.ai/path''
              = Some \<lparr>hostname = ''example.ai'', path = ''/path''\<rparr> \<and>
            tld_extract L ''example.ai'' = Some (''example'', ''ai'') \<longrightarrow>
            normalize_domain L (Some ''http://example.ai/path'') = Inr (Some ''example.ai'')"
    using normalize_domain_Some
            [of "''http://example.ai/path''" L "\<lparr>hostname = ''example.ai'', path = ''/path''\<rparr>"
                "''example''" "''ai''"]
    by (simp add: s3 c3 del: contains.simps)
  have low: "lower ext_domain = ext_domain \<and> lower ext_suffix = ext_suffix \<longrightarrow>
             lower (ext_domain @ ''.'' @ ext_suffix) = ext_domain @ ''.'' @ ext_suffix"
    using lower_dot by (simp add: lower_def)
  have some: "strip u \<noteq> [] \<and>
        urlparse L (if \<not> contains ''://'' (strip u) then ''http://'' @ strip u else strip u)
          = Some parsed \<and>
        hostname parsed \<noteq> [] \<and>
        tld_extract L (hostname parsed) = Some (ext_domain, ext_suffix) \<and>
        ext_domain \<noteq> [] \<and> ext_suffix \<noteq> [] \<longrightarrow>
        normalize_domain L (Some u) = Inr (Some (ext_domain @ ''.'' @ ext_suffix))"
    using normalize_domain_Some[of u L parsed ext_domain ext_suffix] by blast
  have n1: "normalize_domain L (Some '''') = Inr None"
    and n2: "normalize_domain L None = Inr None"
    by (simp_all add: normalize_domain_def)
  show ?thesis
    using normalize_domain_returns[of L v] normalize_domain_None_iff[of L u] some low e1 e2 e3 n1 n2
    by blast
qed

text \<open>The examples of the specification, on the example library.\<close>

theorem normalize_domain_never_raises_witness:
  "normalize_domain example_lib (Some ''https://Sub.Example.co.uk'') = Inr (Some ''example.co.uk'')
   \<and> normalize_domain example_lib (Some ''example.com'') = Inr (Some ''example.com'')
   \<and> normalize_domain example_lib (Some ''http://example.ai/path'') = Inr (Some ''example.ai'')
   \<and> normalize_domain example_lib (Some '''') = Inr None
   \<and> normalize_domain example_lib (Some ''not a url'') = Inr None"
proof -
  have lib:
    "urlparse example_lib ''https://Sub.Example.co.uk''
       = Some \<lparr>hostname = ''sub.example.co.uk'', path = ''''\<rparr>"
    "tld_extract example_lib ''sub.example.co.uk'' = Some (''example'', ''co.uk'')"
    "urlparse example_lib ''http://example.com'' = Some \<lparr>hostname = ''example.com'', path = ''''\<rparr>"
    "tld_extract example_lib ''example.com'' = Some (''example'', ''com'')"
    "urlparse example_lib ''http://example.ai/path''
       = Some \<lparr>hostname = ''example.ai'', path = ''/path''\<rparr>"
    "tld_extract example_lib ''example.ai'' = Some (''example'', ''ai'')"
    by (simp_all add: example_lib_def)
  have garbage: "normalize_domain example_lib (Some ''not a url'') = Inr None"
    by code_simp
  from normalize_domain_never_raises [of example_lib "Some ''example.com''" "''example.com''"] lib garbage
  show ?thesis by blast
qed

section \<open>Properties of the site crawler\<close>

lemma visit_fetches: "cs_fetches (visit W domain url html s) = cs_fetches s"
  by (simp add: visit_def Let_def split: option.splits sum.splits prod.splits)

text \<open>
  The loop keeps \<open>pages_visited\<close> equal to the number of fetches that returned a page, and
  never lets it pass the budget.
\<close>

lemma crawl_loop_budget:
  "cs_pages_visited s = int (length (filter snd (cs_fetches s))) \<Longrightarrow>
   cs_pages_visited s \<le> max 0 (max_pages_per_site S) \<Longrightarrow>
   cs_pages_visited (crawl_loop W S domain txt s)
       = int (length (filter snd (cs_fetches (crawl_loop W S domain txt s))))
   \<and> cs_pages_visited (crawl_loop W S domain txt s) \<le> max 0 (max_pages_per_site S)"
proof (induction W S domain "txt" s rule: crawl_loop.induct)
  case (1 W S domain rt s)
  show ?case
  proof (cases "cs_q s")
    case Nil
    then have "crawl_loop W S domain rt s = s" by (subst crawl_loop.simps) simp
    with "1.prems" show ?thesis by simp
  next
    case (Cons a q')
    obtain url depth where a: "a = (url, depth)" by (cases a)
    show ?thesis
    proof (cases "cs_pages_visited s < max_pages_per_site S")
      case False
      with Cons have "crawl_loop W S domain rt s = s"
        by (subst crawl_loop.simps) (simp add: a)
      with "1.prems" show ?thesis by simp
    next
      case budget: True
      let ?s1 = "s\<lparr>cs_q := q'\<rparr>"
      show ?thesis
      proof (cases "depth > max_depth S")
        case True
        have "crawl_loop W S domain rt s = crawl_loop W S domain rt ?s1"
          using Cons a budget True by (subst crawl_loop.simps) simp
        moreover have "cs_pages_visited (crawl_loop W S domain rt ?s1)
              = int (length (filter snd (cs_fetches (crawl_loop W S domain rt ?s1))))
            \<and> cs_pages_visited (crawl_loop W S domain rt ?s1) \<le> max 0 (max_pages_per_site S)"
          using "1.IH"(1)[OF Cons a[symmetric] _ refl True] budget "1.prems" by simp
        ultimately show ?thesis by simp
      next
        case depth_ok: False
        show ?thesis
        proof (cases "robots_blocks W rt url")
          case True
          let ?s2 = "?s1\<lparr>cs_notes := cs_notes ?s1 @ [''robots_disallow:'' @ url]\<rparr>"
          have "crawl_loop W S domain rt s = crawl_loop W S domain rt ?s2"
            using Cons a budget depth_ok True by (subst crawl_loop.simps) simp
          moreover have "cs_pages_visited (crawl_loop W S domain rt ?s2)
                = int (length (filter snd (cs_fetches (crawl_loop W S domain rt ?s2))))
              \<and> cs_pages_visited (crawl_loop W S domain rt ?s2) \<le> max 0 (max_pages_per_site S)"
            using "1.IH"(2)[OF Cons a[symmetric] _ refl depth_ok True] budget "1.prems" by simp
          ultimately show ?thesis by simp
        next
          case allowed: False
          show ?thesis
          proof (cases "fetch_text W (length (cs_fetches ?s1)) url")
            case (Inl e)
            let ?s3 = "?s1\<lparr>cs_notes := cs_notes ?s1 @ [''fetch_error:'' @ url @ '':'' @ e],
                            cs_fetches := cs_fetches ?s1 @ [(url, False)]\<rparr>"
            have "crawl_loop W S domain rt s = crawl_loop W S domain rt ?s3"
              using Cons a budget depth_ok allowed Inl by (subst crawl_loop.simps) simp
            moreover have "cs_pages_visited (crawl_loop W S domain rt ?s3)
                  = int (length (filter snd (cs_fetches (crawl_loop W S domain rt ?s3))))
                \<and> cs_pages_visited (crawl_loop W S domain rt ?s3) \<le> max 0 (max_pages_per_site S)"
              using "1.IH"(3)[OF Cons a[symmetric] _ refl depth_ok allowed Inl] budget "1.prems"
              by simp
            ultimately show ?thesis by simp
          next
            case (Inr html)
            let ?s4 = "visit W domain url html (?s1\<lparr>cs_fetches := cs_fetches ?s1 @ [(url, True)]\<rparr>)"
            have "crawl_loop W S domain rt s = crawl_loop W S domain rt ?s4"
              using Cons a budget depth_ok allowed Inr by (subst crawl_loop.simps) simp
            moreover have "cs_pages_visited (crawl_loop W S domain rt ?s4)
                  = int (length (filter snd (cs_fetches (crawl_loop W S domain rt ?s4))))
                \<and> cs_pages_visited (crawl_loop W S domain rt ?s4) \<le> max 0 (max_pages_per_site S)"
              using "1.IH"(4)[OF Cons a[symmetric] _ refl depth_ok allowed Inr] budget "1.prems"
              by (simp add: visit_pages_visited visit_fetches)
            ultimately show ?thesis by simp
          qed
        qed
      qed
    qed
  qed
qed

text \<open>
  Claim C2, as the code has it. One call of \<open>crawl_site_for_emails\<close> that returns has
  made at most \<open>max_pages_per_site\<close> page fetches that returned a page: the counter
  \<open>pages_visited\<close> is the number of such fetches and stays within the budget. A fetch
  that raises is not counted.
\<close>

theorem crawl_successful_fetches_within_budget:
  "crawl_run W S domain = Inr s \<Longrightarrow>
   int (length (filter snd (cs_fetches s))) \<le> max 0 (max_pages_per_site S)
   \<and> cs_pages_visited s = int (length (filter snd (cs_fetches s)))"
proof -
  assume run: "crawl_run W S domain = Inr s"
  let ?base = "''https://'' @ domain @ ''/''"
  from run obtain robots_url where ru: "urljoin (lib W) ?base ''/robots.txt'' = Some robots_url"
    by (cases "urljoin (lib W) ?base ''/robots.txt''") (simp_all add: crawl_run_def Let_def)
  show ?thesis
  proof (cases "robots_root_disallowed W robots_url ?base")
    case True
    with run ru show ?thesis by (auto simp: crawl_run_def Let_def)
  next
    case False
    with run ru obtain q where
      s: "s = crawl_loop W S domain (robots_fetch W robots_url)
                \<lparr>cs_seen = set (map fst q), cs_emails = {}, cs_q = q,
                  cs_pages_visited = 0, cs_notes = [], cs_fetches = []\<rparr>"
      by (auto simp: crawl_run_def Let_def split: option.splits sum.splits prod.splits)
    show ?thesis
      unfolding s
      using crawl_loop_budget[of "\<lparr>cs_seen = set (map fst q), cs_emails = {}, cs_q = q,
                  cs_pages_visited = 0, cs_notes = [], cs_fetches = []\<rparr>" S W domain
                  "robots_fetch W robots_url"]
      by simp
  qed
qed

lemma demo_crawl_fetches:
  "(case crawl_run demo_web \<lparr>max_pages_per_site = 15, max_depth = 0\<rparr> ''x.com'' of
      Inl e \<Rightarrow> []
    | Inr s \<Rightarrow> filter snd (cs_fetches s)) =
   [(''https://x.com/'', True), (''https://x.com/team/a'', True),
    (''https://x.com/team/a'', True), (''https://x.com/team/a/b'', True)]"
  by code_simp

lemma demo_crawl_returns:
  "\<exists>s. crawl_run demo_web \<lparr>max_pages_per_site = 15, max_depth = 0\<rparr> ''x.com'' = Inr s"
  using demo_crawl_fetches
  by (cases "crawl_run demo_web \<lparr>max_pages_per_site = 15, max_depth = 0\<rparr> ''x.com''") simp_all

theorem crawl_successful_fetches_within_budget_witness:
  "\<exists>s. crawl_run demo_web \<lparr>max_pages_per_site = 15, max_depth = 0\<rparr> ''x.com'' = Inr s
       \<and> cs_pages_visited s = 4
       \<and> int (length (filter snd (cs_fetches s))) \<le> 15"
proof -
  from demo_crawl_returns obtain s where
    s: "crawl_run demo_web \<lparr>max_pages_per_site = 15, max_depth = 0\<rparr> ''x.com'' = Inr s"
    by blast
  with demo_crawl_fetches have "length (filter snd (cs_fetches s)) = 4" by simp
  with crawl_successful_fetches_within_budget[OF s] s show ?thesis by simp
qed

text \<open>
  Claim C2 as stated fails: with a budget of one page, a site on which every fetch
  raises is asked ten times, once for the root and once for each keyword path.
\<close>

theorem crawl_failed_fetches_exceed_budget:
  "(case crawl_run down_web \<lparr>max_pages_per_site = 1, max_depth = 2\<rparr> ''x.com'' of
      Inl e \<Rightarrow> 0
    | Inr s \<Rightarrow> length (cs_fetches s)) = 10"
  by code_simp

text \<open>Every entry that \<open>enqueue_candidates\<close> appends carries the depth 0.\<close>

lemma enqueue_candidates_depth_zero:
  "enqueue_candidates L domain seen urls q = Inr q' \<Longrightarrow>
   \<exists>new. q' = q @ new \<and> snd ` set new \<subseteq> {0}"
proof (induction urls arbitrary: q)
  case Nil
  then show ?case by simp
next
  case (Cons u urls)
  show ?case
  proof (cases "u \<in> seen \<or> \<not> same_domain L domain u")
    case True
    with Cons.prems have "enqueue_candidates L domain seen urls q = Inr q'"
      by (auto split: if_splits)
    from Cons.IH[OF this] show ?thesis .
  next
    case False
    with Cons.prems obtain parsed where p: "urlparse L u = Some parsed"
      by (cases "urlparse L u") (auto split: if_splits)
    let ?p = "lower (path parsed)"
    show ?thesis
    proof (cases "(\<exists>k \<in> KEYWORDS. contains k ?p) \<or> ?p = ''/'' \<or> ?p = ''''")
      case True
      with Cons.prems False p
      have "enqueue_candidates L domain seen urls (q @ [(u, 0)]) = Inr q'"
        by (simp add: Let_def)
      from Cons.IH[OF this] obtain new where "q' = (q @ [(u, 0)]) @ new" "snd ` set new \<subseteq> {0}"
        by blast
      then have "q' = q @ ((u, 0) # new) \<and> snd ` set ((u, 0) # new) \<subseteq> {0}" by simp
      then show ?thesis by blast
    next
      case no: False
      with Cons.prems False p have "enqueue_candidates L domain seen urls q = Inr q'"
        by (simp add: Let_def)
      from Cons.IH[OF this] show ?thesis .
    qed
  qed
qed

text \<open>
  Claim C1 at a concrete site, with \<open>max_depth = 0\<close>. The root is dequeued at depth 0 and
  links to \<open>/team/a\<close>, which links to \<open>/team/a/b\<close>. Both links are enqueued at depth 0, not
  at the depth of the page plus one, so the depth test passes and both pages are
  fetched.
\<close>

theorem crawl_fetches_beyond_max_depth:
  "\<exists>s. crawl_run demo_web \<lparr>max_pages_per_site = 15, max_depth = 0\<rparr> ''x.com'' = Inr s
       \<and> (''https://x.com/team/a'', True) \<in> set (cs_fetches s)
       \<and> (''https://x.com/team/a/b'', True) \<in> set (cs_fetches s)"
proof -
  from demo_crawl_returns obtain s where
    s: "crawl_run demo_web \<lparr>max_pages_per_site = 15, max_depth = 0\<rparr> ''x.com'' = Inr s"
    by blast
  with demo_crawl_fetches have
    "set (filter snd (cs_fetches s)) =
       set [(''https://x.com/'', True), (''https://x.com/team/a'', True),
            (''https://x.com/team/a'', True), (''https://x.com/team/a/b'', True)]"
    by simp
  then have "(''https://x.com/team/a'', True) \<in> set (cs_fetches s)"
    and "(''https://x.com/team/a/b'', True) \<in> set (cs_fetches s)"
    by auto
  with s show ?thesis by blast
qed

text \<open>
  Claim C6 at the same site. The root page offers \<open>/team/a\<close> twice in one batch of links;
  \<open>seen\<close> is updated only after the batch, so the URL is enqueued twice and fetched
  twice.
\<close>

theorem crawl_fetches_duplicate_link_twice:
  "\<exists>s. crawl_run demo_web \<lparr>max_pages_per_site = 15, max_depth = 0\<rparr> ''x.com'' = Inr s
       \<and> count_list (map fst (filter snd (cs_fetches s))) ''https://x.com/team/a'' = 2"
proof -
  from demo_crawl_returns obtain s where
    s: "crawl_run demo_web \<lparr>max_pages_per_site = 15, max_depth = 0\<rparr> ''x.com'' = Inr s"
    by blast
  with demo_crawl_fetches have
    "filter snd (cs_fetches s) =
       [(''https://x.com/'', True), (''https://x.com/team/a'', True),
        (''https://x.com/team/a'', True), (''https://x.com/team/a/b'', True)]"
    by simp
  then have "count_list (map fst (filter snd (cs_fetches s))) ''https://x.com/team/a'' = 2"
    by simp
  with s show ?thesis by blast
qed

section \<open>Properties of the email extractor\<close>

lemma finite_filtered: "finite (filtered html)"
  by (simp add: filtered_def candidates_def)

text \<open>
  The test for the second half, \<open>e.lower() not in {x.lower() for x in on}\<close>, removes
  exactly the addresses of the first half: whether an address ends in the domain depends
  on its lower-case form only.
\<close>

lemma off_is_complement:
  "{e \<in> F. lower e \<notin> lower ` {e \<in> F. endswith (lower e) p}} = {e \<in> F. \<not> endswith (lower e) p}"
  by auto

lemma extract_None: "extract_emails_from_html html None = sorted_list_of_set (filtered html)"
  by (simp add: extract_emails_from_html_def)

lemma extract_Some:
  "d \<noteq> [] \<Longrightarrow>
   extract_emails_from_html html (Some d) =
     sorted_list_of_set {e \<in> filtered html. endswith (lower e) (''@'' @ lower d)} @
     sorted_list_of_set {e \<in> filtered html. \<not> endswith (lower e) (''@'' @ lower d)}"
proof -
  assume d: "d \<noteq> []"
  define p where "p = ''@'' @ lower d"
  have fin: "finite {e \<in> filtered html. endswith (lower e) p}"
    using finite_filtered by simp
  have st: "set (sorted_list_of_set {e \<in> filtered html. endswith (lower e) p})
              = {e \<in> filtered html. endswith (lower e) p}"
    using fin by simp
  have "extract_emails_from_html html (Some d) =
          sorted_list_of_set {e \<in> filtered html. endswith (lower e) p} @
          sorted_list_of_set
            {e \<in> filtered html.
               lower e \<notin> lower ` set (sorted_list_of_set
                                          {e \<in> filtered html. endswith (lower e) p})}"
    using d by (simp add: extract_emails_from_html_def Let_def p_def)
  also have "\<dots> = sorted_list_of_set {e \<in> filtered html. endswith (lower e) p} @
                   sorted_list_of_set {e \<in> filtered html. \<not> endswith (lower e) p}"
    unfolding st off_is_complement ..
  finally show ?thesis unfolding p_def .
qed

lemma extract_set: "set (extract_emails_from_html html domain) = filtered html"
proof (cases "domain = None \<or> domain = Some []")
  case True
  then show ?thesis
    using finite_filtered by (auto simp: extract_emails_from_html_def)
next
  case False
  then obtain d where d: "domain = Some d" "d \<noteq> []" by (cases domain) auto
  have "finite {e \<in> filtered html. endswith (lower e) (''@'' @ lower d)}"
    and "finite {e \<in> filtered html. \<not> endswith (lower e) (''@'' @ lower d)}"
    using finite_filtered by simp_all
  then show ?thesis
    unfolding d extract_Some[OF d(2)] by auto
qed

lemma extract_distinct: "distinct (extract_emails_from_html html domain)"
proof (cases "domain = None \<or> domain = Some []")
  case True
  then show ?thesis by (auto simp: extract_emails_from_html_def)
next
  case False
  then obtain d where d: "domain = Some d" "d \<noteq> []" by (cases domain) auto
  have "finite {e \<in> filtered html. endswith (lower e) (''@'' @ lower d)}"
    and "finite {e \<in> filtered html. \<not> endswith (lower e) (''@'' @ lower d)}"
    using finite_filtered by simp_all
  then show ?thesis
    unfolding d extract_Some[OF d(2)] by auto
qed

text \<open>
  Claim C4, as the code has it. For every text and every bias domain the result has
  no address twice (addresses are compared exactly, so two spellings of one address that
  differ in case are both kept). Without a bias domain it is sorted. With a bias domain
  it is the sorted list of the addresses that end in \<open>@domain\<close>, compared in lower case,
  followed by the sorted list of the others. The bias drops and adds nothing: both calls
  return the same addresses, and as many.
\<close>

theorem extract_emails_bias_only_reorders:
  "distinct (extract_emails_from_html html domain)
   \<and> set (extract_emails_from_html html domain) = set (extract_emails_from_html html None)
   \<and> length (extract_emails_from_html html domain) = length (extract_emails_from_html html None)
   \<and> sorted (extract_emails_from_html html None)
   \<and> (d \<noteq> [] \<longrightarrow>
        (\<exists>on off. extract_emails_from_html html (Some d) = on @ off
           \<and> sorted on \<and> sorted off
           \<and> (\<forall>e \<in> set on. endswith (lower e) (''@'' @ lower d))
           \<and> (\<forall>e \<in> set off. \<not> endswith (lower e) (''@'' @ lower d))))"
proof -
  have same_set: "set (extract_emails_from_html html domain) = set (extract_emails_from_html html None)"
    by (simp add: extract_set)
  have "length (extract_emails_from_html html domain) = card (filtered html)"
    using distinct_card[OF extract_distinct, of html domain] by (simp add: extract_set)
  moreover have "length (extract_emails_from_html html None) = card (filtered html)"
    using distinct_card[OF extract_distinct, of html None] by (simp add: extract_set)
  ultimately have same_length:
    "length (extract_emails_from_html html domain) = length (extract_emails_from_html html None)"
    by simp
  have sorted_plain: "sorted (extract_emails_from_html html None)"
    by (simp add: extract_None)
  have halves: "d \<noteq> [] \<longrightarrow>
        (\<exists>on off. extract_emails_from_html html (Some d) = on @ off
           \<and> sorted on \<and> sorted off
           \<and> (\<forall>e \<in> set on. endswith (lower e) (''@'' @ lower d))
           \<and> (\<forall>e \<in> set off. \<not> endswith (lower e) (''@'' @ lower d)))"
  proof
    assume d: "d \<noteq> []"
    let ?on = "sorted_list_of_set {e \<in> filtered html. endswith (lower e) (''@'' @ lower d)}"
    let ?off = "sorted_list_of_set {e \<in> filtered html. \<not> endswith (lower e) (''@'' @ lower d)}"
    have "finite {e \<in> filtered html. endswith (lower e) (''@'' @ lower d)}"
      and "finite {e \<in> filtered html. \<not> endswith (lower e) (''@'' @ lower d)}"
      using finite_filtered by simp_all
    then have "\<forall>e \<in> set ?on. endswith (lower e) (''@'' @ lower d)"
      and "\<forall>e \<in> set ?off. \<not> endswith (lower e) (''@'' @ lower d)"
      by simp_all
    moreover have "sorted ?on" and "sorted ?off" by simp_all
    moreover have "extract_emails_from_html html (Some d) = ?on @ ?off"
      by (rule extract_Some[OF d])
    ultimately show "\<exists>on off. extract_emails_from_html html (Some d) = on @ off
           \<and> sorted on \<and> sorted off
           \<and> (\<forall>e \<in> set on. endswith (lower e) (''@'' @ lower d))
           \<and> (\<forall>e \<in> set off. \<not> endswith (lower e) (''@'' @ lower d))"
      by blast
  qed
  from extract_distinct[of html domain] same_set same_length sorted_plain halves
  show ?thesis by blast
qed

text \<open>
  The bias at work: the address of the domain comes first although it sorts last.
\<close>

theorem extract_emails_bias_only_reorders_witness:
  "extract_emails_from_html ''z@alphaai.com other@other.com'' (Some ''alphaai.com'')
     = [''z@alphaai.com'', ''other@other.com'']
   \<and> extract_emails_from_html ''z@alphaai.com other@other.com'' None
     = [''other@other.com'', ''z@alphaai.com'']
   \<and> endswith (lower ''z@alphaai.com'') (''@'' @ lower ''alphaai.com'')
   \<and> \<not> endswith (lower ''other@other.com'') (''@'' @ lower ''alphaai.com'')"
proof -
  have biased: "extract_emails_from_html ''z@alphaai.com other@other.com'' (Some ''alphaai.com'')
                  = [''z@alphaai.com'', ''other@other.com'']"
    by code_simp
  have plain: "extract_emails_from_html ''z@alphaai.com other@other.com'' None
                 = [''other@other.com'', ''z@alphaai.com'']"
    by code_simp
  have z: "endswith (lower ''z@alphaai.com'') (''@'' @ lower ''alphaai.com'')"
    by code_simp
  have o: "\<not> endswith (lower ''other@other.com'') (''@'' @ lower ''alphaai.com'')"
    by code_simp
  from extract_emails_bias_only_reorders
         [of "''z@alphaai.com other@other.com''" "Some ''alphaai.com''" "''alphaai.com''"]
  have same: "set (extract_emails_from_html ''z@alphaai.com other@other.com'' (Some ''alphaai.com''))
                = set (extract_emails_from_html ''z@alphaai.com other@other.com'' None)"
    by blast
  from same biased plain z o show ?thesis by simp
qed

text \<open>
  Claim C4 as stated fails: the result is not deduplicated case-insensitively. Two
  spellings of one address are both returned, without and with a bias domain.
\<close>

theorem extract_emails_keeps_case_variants:
  "extract_emails_from_html ''A@x.com a@x.com'' None = [''A@x.com'', ''a@x.com'']
   \<and> extract_emails_from_html ''A@x.com a@x.com'' (Some ''x.com'') = [''A@x.com'', ''a@x.com'']
   \<and> lower ''A@x.com'' = lower ''a@x.com''"
  by code_simp

end
